theory Spec2Isabelle
  imports Main "HOL-Library.Char_ord" "HOL-Library.List_Lexorder"
begin

section \<open>Errors\<close>

text \<open>
  Every exception of the source is a value. \<open>Malformed_URL\<close> is the failure of
  \<^verbatim>\<open>console.assert(match)\<close> followed by \<^verbatim>\<open>match[2]\<close> on a \<^verbatim>\<open>null\<close> match in
  \<^verbatim>\<open>getUniqueURLs\<close> (an AssertionError on Node 6 to 9, a TypeError from Node 10 on).
  \<open>NoData u\<close> is \<^verbatim>\<open>new Error(`Expected parse success from ${url}`)\<close>.
  \<open>External\<close> stands for whatever a collaborator outside the source rejects with.
\<close>

datatype error =
    Malformed_URL
  | TypeError
  | ReferenceError
  | NoData string
  | Unreachable
  | MalformedMemoOutput
  | AlreadyRunning
  | External string

section \<open>URL canonicalisation: \<^verbatim>\<open>getUniqueURLs\<close>\<close>

text \<open>
  The pattern \<^verbatim>\<open>/^(https?):\/\/(.*)$/\<close>. The dot does not match a line terminator and
  \<^verbatim>\<open>$\<close> (no \<^verbatim>\<open>m\<close> flag) matches at the end of input only, so the rest of the URL must be
  free of line terminators. Strings are lists of 8-bit characters here; of the four
  JavaScript line terminators only LF and CR exist in that range.
\<close>

definition line_terminator :: "char \<Rightarrow> bool" where
  "line_terminator c \<longleftrightarrow> c = CHR 0x0A \<or> c = CHR 0x0D"

definition match_url :: "string \<Rightarrow> (string \<times> string) option" where
  "match_url u =
     (if take 8 u = ''https://'' \<and> \<not> (\<exists>c \<in> set (drop 8 u). line_terminator c)
        then Some (''https'', drop 8 u)
      else if take 7 u = ''http://'' \<and> \<not> (\<exists>c \<in> set (drop 7 u). line_terminator c)
        then Some (''http'', drop 7 u)
      else None)"

text \<open>
  \<^verbatim>\<open>urlMap\<close> is a plain object \<^verbatim>\<open>{}\<close>: its own properties in insertion order, and behind them
  the properties inherited from \<^verbatim>\<open>Object.prototype\<close>, which a read \<^verbatim>\<open>urlMap[key]\<close> finds when
  the object has no own property of that name.
\<close>

type_synonym urlMap = "(string \<times> string list) list"

definition object_prototype_names :: "string list" where
  "object_prototype_names =
     [''constructor'', ''__defineGetter__'', ''__defineSetter__'', ''hasOwnProperty'',
      ''__lookupGetter__'', ''__lookupSetter__'', ''isPrototypeOf'',
      ''propertyIsEnumerable'', ''toString'', ''valueOf'', ''__proto__'',
      ''toLocaleString'']"

text \<open>Assignment \<^verbatim>\<open>o[k] = v\<close>: an existing own property keeps its place, a new one goes last.\<close>

fun put :: "string \<Rightarrow> string list \<Rightarrow> urlMap \<Rightarrow> urlMap" where
  "put k v [] = [(k, v)]"
| "put k v (p # ps) = (if fst p = k then (k, v) # ps else p # put k v ps)"

text \<open>\<^verbatim>\<open>delete o[k]\<close>.\<close>

definition delete_prop :: "string \<Rightarrow> urlMap \<Rightarrow> urlMap" where
  "delete_prop k m = filter (\<lambda>p. fst p \<noteq> k) m"

text \<open>
  \<^verbatim>\<open>Object.getOwnPropertyNames\<close> lists the array-index names first, in ascending numeric
  order, then the other names in insertion order. An array index is the canonical decimal
  string of an integer from 0 to \<open>2^32 - 2\<close>.
\<close>

definition digit :: "char \<Rightarrow> bool" where
  "digit c \<longleftrightarrow> CHR ''0'' \<le> c \<and> c \<le> CHR ''9''"

definition index_value :: "string \<Rightarrow> int" where
  "index_value s = foldl (\<lambda>n c. 10 * n + (of_char c - 48)) 0 s"

definition is_array_index :: "string \<Rightarrow> bool" where
  "is_array_index s \<longleftrightarrow>
     s \<noteq> [] \<and> list_all digit s \<and> (s = ''0'' \<or> hd s \<noteq> CHR ''0'') \<and>
     index_value s < 4294967295"

definition own_properties :: "urlMap \<Rightarrow> urlMap" where
  "own_properties m =
     sort_key (\<lambda>p. index_value (fst p)) (filter (\<lambda>p. is_array_index (fst p)) m) @
     filter (\<lambda>p. \<not> is_array_index (fst p)) m"

definition getOwnPropertyNames :: "urlMap \<Rightarrow> string list" where
  "getOwnPropertyNames m = map fst (own_properties m)"

text \<open>lodash \<^verbatim>\<open>_.uniq\<close>: the first occurrence of every element, in order.\<close>

fun uniq :: "'a list \<Rightarrow> 'a list" where
  "uniq [] = []"
| "uniq (x # xs) = x # uniq (filter (\<lambda>y. y \<noteq> x) xs)"

text \<open>
  The body of \<^verbatim>\<open>urls.forEach\<close>. On a name inherited from \<^verbatim>\<open>Object.prototype\<close> the read
  \<^verbatim>\<open>urlMap[key]\<close> yields the inherited (truthy) value, which has no \<^verbatim>\<open>filter\<close> method: the
  call is a TypeError. Otherwise the scheme is pushed when it is not in the list yet, and
  the list sorted (\<^verbatim>\<open>Array.prototype.sort\<close> without comparator orders strings by code unit).
\<close>

definition note_scheme :: "urlMap \<Rightarrow> string \<Rightarrow> error + urlMap" where
  "note_scheme m u =
     (case match_url u of
        None \<Rightarrow> Inl Malformed_URL
      | Some (scheme, key) \<Rightarrow>
          (case map_of m key of
             None \<Rightarrow>
               if key \<in> set object_prototype_names then Inl TypeError
               else Inr (put key (sort [scheme]) m)
           | Some schemes \<Rightarrow>
               if filter (\<lambda>s. s = scheme) schemes = []
               then Inr (put key (sort (schemes @ [scheme])) m)
               else Inr m))"

fun note_schemes :: "urlMap \<Rightarrow> string list \<Rightarrow> error + urlMap" where
  "note_schemes m [] = Inr m"
| "note_schemes m (u # us) =
     (case note_scheme m u of Inl e \<Rightarrow> Inl e | Inr m' \<Rightarrow> note_schemes m' us)"

text \<open>
  The body of the second traversal, over the names the object had when the traversal
  began: when \<^verbatim>\<open>urlMap[url + '/']\<close> exists, the schemes of \<^verbatim>\<open>url\<close> are merged into it and
  \<^verbatim>\<open>url\<close> is deleted. A name is deleted in its own iteration only, so \<^verbatim>\<open>urlMap[url]\<close> exists
  whenever the body runs; the model leaves the object alone otherwise.
\<close>

definition merge_slash :: "urlMap \<Rightarrow> string \<Rightarrow> urlMap" where
  "merge_slash m k =
     (case map_of m (k @ ''/'') of
        None \<Rightarrow> m
      | Some withSlash \<Rightarrow>
          (case map_of m k of
             None \<Rightarrow> m
           | Some without \<Rightarrow>
               delete_prop k (put (k @ ''/'') (sort (uniq (withSlash @ without))) m)))"

text \<open>\<^verbatim>\<open>urlMap[rest].pop()\<close> in a template string: the last scheme, \<^verbatim>\<open>undefined\<close> on an empty list.\<close>

definition pop_scheme :: "string list \<Rightarrow> string" where
  "pop_scheme schemes = (if schemes = [] then ''undefined'' else last schemes)"

definition emit_url :: "string \<times> string list \<Rightarrow> string" where
  "emit_url p = pop_scheme (snd p) @ ''://'' @ fst p"

definition getUniqueURLs :: "string list \<Rightarrow> error + string list" where
  "getUniqueURLs urls =
     (case note_schemes [] urls of
        Inl e \<Rightarrow> Inl e
      | Inr m \<Rightarrow> Inr (map emit_url (own_properties (foldl merge_slash m (getOwnPropertyNames m)))))"

section \<open>Parse records, the disk and the collaborators\<close>

text \<open>
  A parse record \<^verbatim>\<open>{url, parses}\<close>; a fragment is opaque (type \<open>'f\<close>), only the sequence
  and its length matter.
\<close>

record 'f parse_record =
  url :: string
  parses :: "'f list"

text \<open>
  The comparator \<^verbatim>\<open>urlSort\<close> and \<^verbatim>\<open>Array.prototype.sort\<close> with a comparator, as a stable
  insertion sort (the sort of Node 11 and later is stable).
\<close>

definition urlSort :: "'f parse_record \<Rightarrow> 'f parse_record \<Rightarrow> int" where
  "urlSort a b = (if url a < url b then - 1 else if url a > url b then 1 else 0)"

fun insort_by :: "('a \<Rightarrow> 'a \<Rightarrow> int) \<Rightarrow> 'a \<Rightarrow> 'a list \<Rightarrow> 'a list" where
  "insort_by cmp x [] = [x]"
| "insort_by cmp x (y # ys) = (if cmp x y \<le> 0 then x # y # ys else y # insort_by cmp x ys)"

definition sort_by :: "('a \<Rightarrow> 'a \<Rightarrow> int) \<Rightarrow> 'a list \<Rightarrow> 'a list" where
  "sort_by cmp xs = foldr (insort_by cmp) xs []"

text \<open>
  A file holds text on which \<^verbatim>\<open>JSON.parse\<close> returns a value of the expected shape
  (\<open>Json\<close>) or on which it throws (\<open>Garbage\<close>). The disk has three name spaces: the
  raw-bytes cache \<^verbatim>\<open>.urlcache\<close>, the parse-record cache \<^verbatim>\<open>.idlcache\<close> and the dataset
  files at the output paths. \<open>urlcache_dir\<close> tells whether the directory \<^verbatim>\<open>.urlcache\<close>
  exists: \<^verbatim>\<open>prepareToScrape\<close> creates it, \<^verbatim>\<open>loadURL\<close> relies on it, and the files of
  \<open>urlcache\<close> are there only when it does (the working directory is taken to be the
  directory of the script, so that \<^verbatim>\<open>./.urlcache\<close> and \<^verbatim>\<open>urlCacheDir\<close> are one directory).
  The directory \<^verbatim>\<open>.idlcache\<close> is taken to exist, and writing a file into an existing
  directory succeeds.
\<close>

datatype 'a stored = Json 'a | Garbage

record 'f disk =
  urlcache_dir :: bool
  urlcache :: "string \<rightharpoonup> string"
  idlcache :: "string \<rightharpoonup> 'f parse_record stored"
  datasets :: "string \<rightharpoonup> 'f parse_record list stored"

text \<open>The \<^verbatim>\<open>data\<close> a fetch resolves with: one string or buffer, or an array of them.\<close>

datatype content = One string | Many "string list"

fun candidates :: "content \<Rightarrow> string list" where
  "candidates (One idl) = [idl]"
| "candidates (Many idls) = idls"

text \<open>
  The collaborators outside the source, as parameters.
  \<^item> \<open>parseString\<close> is \<^verbatim>\<open>parser.parseString\<close> of webidl2-js: the pair \<^verbatim>\<open>(res[0], res[1])\<close>.
  \<^item> \<open>scrape pass i u\<close> is \<^verbatim>\<open>seleniumManager.scrape(url)\<close> for the \<open>i\<close>-th URL of the
    given pass. Modelled from the spec: \<^verbatim>\<open>scrape(url)\<close> resolves with the raw page content
    of \<^verbatim>\<open>url\<close> or is rejected; the scraper itself
    (\<^verbatim>\<open>lib/remote/scraper.es6.js\<close>) is not part of the source at hand.
  \<^item> \<open>request\<close> is the hyperquest request of \<^verbatim>\<open>loadURL\<close>: an error (passed to the
    callback or emitted by the response), or the response body as \<^verbatim>\<open>data\<close> accumulates it:
    \<open>None\<close> when the response ends without a chunk and \<^verbatim>\<open>data\<close> is still \<^verbatim>\<open>undefined\<close>.
  \<^item> What a collaborator rejects with is an error object.
  \<^item> \<open>completion k\<close> lists job numbers of batch \<open>k\<close> in the order in which they settle;
    \<open>completion_order\<close> below makes a full order of any such list.
\<close>

record 'f world =
  parseString :: "string \<Rightarrow> bool \<times> 'f list"
  scrape :: "nat \<Rightarrow> nat \<Rightarrow> string \<Rightarrow> error + content"
  request :: "string \<Rightarrow> error + string option"
  completion :: "nat \<Rightarrow> nat list"

section \<open>The caches\<close>

definition alphanumeric :: "char \<Rightarrow> bool" where
  "alphanumeric c \<longleftrightarrow>
     (CHR ''a'' \<le> c \<and> c \<le> CHR ''z'') \<or> (CHR ''A'' \<le> c \<and> c \<le> CHR ''Z'') \<or> digit c"

definition getCacheFileName :: "string \<Rightarrow> string" where
  "getCacheFileName u = map (\<lambda>c. if alphanumeric c then c else CHR ''_'') u"

text \<open>\<^verbatim>\<open>prepareToScrape\<close>: both cache directories exist afterwards.\<close>

definition prepareToScrape :: "'f disk \<Rightarrow> 'f disk" where
  "prepareToScrape d = d\<lparr>urlcache_dir := True\<rparr>"

definition clearCache :: "string \<Rightarrow> 'f disk \<Rightarrow> 'f disk" where
  "clearCache u d =
     d\<lparr>urlcache := (urlcache d)(getCacheFileName u := None),
       idlcache := (idlcache d)(getCacheFileName u := None)\<rparr>"

section \<open>\<^verbatim>\<open>parse\<close>\<close>

text \<open>The \<^verbatim>\<open>for (let idl of data)\<close> loop: fragments of every candidate the parser accepts.\<close>

definition extract_fragments :: "'f world \<Rightarrow> string list \<Rightarrow> 'f list" where
  "extract_fragments w data =
     foldl (\<lambda>acc idl. let res = parseString w idl in if fst res then acc @ snd res else acc)
       [] data"

text \<open>
  \<^verbatim>\<open>parse({url, data})\<close>. Inside \<^verbatim>\<open>try\<close>: a readable cached record is returned as it is.
  Whatever throws there (no file, text that is not JSON) leads to the \<^verbatim>\<open>catch\<close> branch, which
  parses the candidates, throws when there is no fragment, and writes the record otherwise.
\<close>

definition parse ::
  "'f world \<Rightarrow> string \<times> content \<Rightarrow> 'f disk \<Rightarrow> (error + 'f parse_record) \<times> 'f disk" where
  "parse w res d =
     (let u = fst res; data = candidates (snd res); idlCachePath = getCacheFileName u in
      case idlcache d idlCachePath of
        Some (Json cached) \<Rightarrow> (Inr cached, d)
      | _ \<Rightarrow>
          let ps = extract_fragments w data in
          if length ps = 0 then (Inl (NoData u), d)
          else (Inr \<lparr>url = u, parses = ps\<rparr>,
                d\<lparr>idlcache := (idlcache d)(idlCachePath \<mapsto> Json \<lparr>url = u, parses = ps\<rparr>)\<rparr>))"

section \<open>\<^verbatim>\<open>loadURL\<close>\<close>

text \<open>
  The executor of the promise runs when \<^verbatim>\<open>loadURL\<close> is called: it looks into the cache at
  once (\<open>loadURL_begin\<close>; without the directory there is no file) and sends the request
  on a miss. The response arrives later (\<open>loadURL_end\<close>): an error rejects the promise;
  on \<^verbatim>\<open>end\<close> the handler writes the body to the cache and resolves the promise.
  \<^verbatim>\<open>fs.writeFileSync\<close> stands in the handler outside any \<^verbatim>\<open>try\<close>: when it throws, because the
  directory is missing or because \<^verbatim>\<open>data\<close> is \<^verbatim>\<open>undefined\<close> (a TypeError from Node 14 on), the
  exception escapes the event handler and the promise is neither resolved nor rejected.
  That outcome is \<open>None\<close>.
\<close>

definition loadURL_begin :: "'f disk \<Rightarrow> string \<Rightarrow> string option" where
  "loadURL_begin d u = (if urlcache_dir d then urlcache d (getCacheFileName u) else None)"

definition loadURL_end ::
  "'f world \<Rightarrow> string \<Rightarrow> string option \<Rightarrow> 'f disk \<Rightarrow>
     (error + string \<times> content) option \<times> 'f disk" where
  "loadURL_end w u begun d =
     (case begun of
        Some data \<Rightarrow> (Some (Inr (u, One data)), d)
      | None \<Rightarrow>
          (case request w u of
             Inl err \<Rightarrow> (Some (Inl err), d)
           | Inr None \<Rightarrow> (None, d)
           | Inr (Some data) \<Rightarrow>
               if urlcache_dir d
               then (Some (Inr (u, One data)),
                     d\<lparr>urlcache := (urlcache d)(getCacheFileName u \<mapsto> data)\<rparr>)
               else (None, d)))"

section \<open>Batches of promises\<close>

text \<open>
  The callbacks of a batch run one at a time, in the order in which the jobs settle.
  \<open>completion_order hint n\<close> is an order of the jobs \<open>0, \<dots>, n - 1\<close>: the hinted ones first.
  \<open>settle\<close> runs the jobs in that order on the shared state and \<open>promise_all\<close> is
  \<^verbatim>\<open>Promise.all\<close>: the first rejection in time, or else the values by position.
\<close>

definition completion_order :: "nat list \<Rightarrow> nat \<Rightarrow> nat list" where
  "completion_order hint n =
     remdups (filter (\<lambda>i. i < n) hint) @ filter (\<lambda>i. i \<notin> set hint) [0..<n]"

fun settle ::
  "(nat \<Rightarrow> 'a \<Rightarrow> 's \<Rightarrow> 'r \<times> 's) \<Rightarrow> 'a list \<Rightarrow> nat list \<Rightarrow> 's \<Rightarrow> (nat \<times> 'r) list \<times> 's" where
  "settle job xs [] s = ([], s)"
| "settle job xs (i # js) s =
     (case job i (xs ! i) s of
        (r, s1) \<Rightarrow> (case settle job xs js s1 of (rs, s2) \<Rightarrow> ((i, r) # rs, s2)))"

fun rejections :: "(nat \<times> (error + 'a)) list \<Rightarrow> error list" where
  "rejections [] = []"
| "rejections ((i, Inl e) # rs) = e # rejections rs"
| "rejections ((i, Inr v) # rs) = rejections rs"

fun fulfilments :: "(nat \<times> (error + 'a)) list \<Rightarrow> 'a list" where
  "fulfilments [] = []"
| "fulfilments ((i, Inl e) # rs) = fulfilments rs"
| "fulfilments ((i, Inr v) # rs) = v # fulfilments rs"

text \<open>
  The same with jobs that may throw out of an event handler (\<open>None\<close>). Nothing catches such
  an exception: the process ends with it, and the jobs that have not settled never do.
\<close>

fun settle_until_throw ::
  "(nat \<Rightarrow> 'a \<Rightarrow> 's \<Rightarrow> 'r option \<times> 's) \<Rightarrow> 'a list \<Rightarrow> nat list \<Rightarrow> 's \<Rightarrow>
     (nat \<times> 'r) list option \<times> 's" where
  "settle_until_throw job xs [] s = (Some [], s)"
| "settle_until_throw job xs (i # js) s =
     (case job i (xs ! i) s of
        (None, s1) \<Rightarrow> (None, s1)
      | (Some r, s1) \<Rightarrow>
          (case settle_until_throw job xs js s1 of
             (None, s2) \<Rightarrow> (None, s2)
           | (Some rs, s2) \<Rightarrow> (Some ((i, r) # rs), s2)))"

definition promise_all :: "(nat \<times> (error + 'a)) list \<Rightarrow> error + 'a list" where
  "promise_all settled =
     (case rejections settled of
        e # _ \<Rightarrow> Inl e
      | [] \<Rightarrow> Inr (fulfilments (sort_key fst settled)))"

section \<open>\<^verbatim>\<open>importHTTP\<close>\<close>

text \<open>
  One element of \<^verbatim>\<open>scrapeURLs\<close>: \<^verbatim>\<open>seleniumManager.scrape(url).then(parse)\<close>, and around it
  \<^verbatim>\<open>.catch(\<dots>)\<close>, which pushes the URL to \<^verbatim>\<open>errs\<close> (\<^verbatim>\<open>seleniumFail\<close>) and returns a record
  without parses. The state of the job is the disk and the array \<^verbatim>\<open>errs\<close>.
\<close>

definition scrape_then_parse ::
  "'f world \<Rightarrow> nat \<Rightarrow> nat \<Rightarrow> string \<Rightarrow> 'f disk \<Rightarrow> (error + 'f parse_record) \<times> 'f disk" where
  "scrape_then_parse w pass i u d =
     (case scrape w pass i u of
        Inl err \<Rightarrow> (Inl err, d)
      | Inr data \<Rightarrow> parse w (u, data) d)"

definition scrape_job ::
  "'f world \<Rightarrow> nat \<Rightarrow> nat \<Rightarrow> string \<Rightarrow> 'f disk \<times> string list \<Rightarrow>
     (error + 'f parse_record) \<times> ('f disk \<times> string list)" where
  "scrape_job w pass i u s =
     (case scrape_then_parse w pass i u (fst s) of
        (Inl err, d) \<Rightarrow> (Inr \<lparr>url = u, parses = []\<rparr>, (d, snd s @ [u]))
      | (Inr r, d) \<Rightarrow> (Inr r, (d, snd s)))"

definition scrapeURLs ::
  "'f world \<Rightarrow> nat \<Rightarrow> string list \<Rightarrow> 'f disk \<times> string list \<Rightarrow>
     (error + 'f parse_record list) \<times> ('f disk \<times> string list)" where
  "scrapeURLs w pass urls s =
     (case settle (scrape_job w pass) urls
             (completion_order (completion w pass) (length urls)) s of
        (settled, s') \<Rightarrow> (promise_all settled, s'))"

text \<open>The loop over \<^verbatim>\<open>prevData\<close> that fills \<^verbatim>\<open>retryURLs\<close>.\<close>

definition retry_step :: "'f parse_record list \<Rightarrow> string list \<Rightarrow> 'f parse_record \<Rightarrow> string list" where
  "retry_step allData retryURLs prevDatum =
     (case find (\<lambda>d. url d = url prevDatum) allData of
        None \<Rightarrow>
          if length (parses prevDatum) > 0 then retryURLs @ [url prevDatum] else retryURLs
      | Some datum \<Rightarrow>
          if length (parses datum) < length (parses prevDatum)
          then retryURLs @ [url prevDatum] else retryURLs)"

definition retry_urls :: "'f parse_record list \<Rightarrow> 'f parse_record list option \<Rightarrow> string list" where
  "retry_urls allData prevData =
     (case prevData of None \<Rightarrow> [] | Some pd \<Rightarrow> foldl (retry_step allData) [] pd)"

text \<open>
  The loop over \<^verbatim>\<open>retryURLs\<close> after the second pass. \<open>data\<close> is the parameter of the
  callback, the records of the second pass: the source does not read it, both
  \<^verbatim>\<open>firstDatum\<close> and \<^verbatim>\<open>secondDatum\<close> are looked up in \<^verbatim>\<open>allData\<close>. In the branch for a missing
  \<^verbatim>\<open>secondDatum\<close> the template string reads \<^verbatim>\<open>prevDatum.url\<close>; \<^verbatim>\<open>prevDatum\<close> is declared in the
  earlier \<^verbatim>\<open>for\<close> loop and in a later sibling block only, none of them in scope here, so
  evaluating it is a ReferenceError. \<^verbatim>\<open>prevData.filter\<close> on \<^verbatim>\<open>null\<close> is a TypeError.
\<close>

fun second_pass ::
  "'f parse_record list \<Rightarrow> 'f parse_record list option \<Rightarrow> 'f parse_record list \<Rightarrow>
     string list \<Rightarrow> error + 'f parse_record list" where
  "second_pass allData prevData data [] = Inr allData"
| "second_pass allData prevData data (u # retryURLs) =
     (let firstDatum = find (\<lambda>d. url d = u) allData;
          secondDatum = find (\<lambda>d. url d = u) allData
      in case secondDatum of
           None \<Rightarrow> Inl ReferenceError
         | Some sd \<Rightarrow>
             (case firstDatum of
                None \<Rightarrow> second_pass (sort_by urlSort (allData @ [sd])) prevData data retryURLs
              | Some fd \<Rightarrow>
                  if length (parses sd) < length (parses fd)
                    then second_pass allData prevData data retryURLs
                  else if length (parses sd) = length (parses fd)
                    then second_pass allData prevData data retryURLs
                  else if length (parses sd) > length (parses fd) then
                    (case prevData of
                       None \<Rightarrow> Inl TypeError
                     | Some pd \<Rightarrow>
                         (case find (\<lambda>d. url d = u) pd of
                            None \<Rightarrow> second_pass allData prevData data retryURLs
                          | Some prevDatum \<Rightarrow>
                              if length (parses sd) < length (parses prevDatum)
                                then second_pass allData prevData data retryURLs
                              else if length (parses sd) = length (parses prevDatum)
                                then second_pass allData prevData data retryURLs
                              else if length (parses sd) > length (parses prevDatum)
                                then second_pass (sort_by urlSort (allData @ [sd]))
                                       prevData data retryURLs
                              else Inl Unreachable))
                  else Inl Unreachable))"

text \<open>The first pass, up to the sorted \<^verbatim>\<open>allData\<close>.\<close>

definition first_pass ::
  "'f world \<Rightarrow> string list \<Rightarrow> 'f disk \<Rightarrow>
     (error + 'f parse_record list) \<times> ('f disk \<times> string list)" where
  "first_pass w us d = scrapeURLs w 1 us (d, [])"

definition read_dataset :: "'f disk \<Rightarrow> string \<Rightarrow> 'f parse_record list option" where
  "read_dataset d path = (case datasets d path of Some (Json pd) \<Rightarrow> Some pd | _ \<Rightarrow> None)"

text \<open>The retry pass: caches cleared, then \<^verbatim>\<open>scrapeURLs\<close> with the second manager.\<close>

definition retry_pass ::
  "'f world \<Rightarrow> string list \<Rightarrow> 'f disk \<times> string list \<Rightarrow>
     (error + 'f parse_record list) \<times> ('f disk \<times> string list)" where
  "retry_pass w retryURLs s =
     scrapeURLs w 2 retryURLs (foldl (\<lambda>d u. clearCache u d) (fst s) retryURLs, snd s)"

definition importHTTP ::
  "'f world \<Rightarrow> string list \<Rightarrow> string \<Rightarrow> 'f disk \<Rightarrow> (error + 'f parse_record list) \<times> 'f disk" where
  "importHTTP w urls path d0 =
     (case getUniqueURLs urls of
        Inl e \<Rightarrow> (Inl e, d0)
      | Inr us \<Rightarrow>
          (case first_pass w us (prepareToScrape d0) of
             (Inl e, s1) \<Rightarrow> (Inl e, fst s1)
           | (Inr data, s1) \<Rightarrow>
               let allData = sort_by urlSort data;
                   prevData = read_dataset (fst s1) path;
                   retryURLs = retry_urls allData prevData
               in (case retry_pass w retryURLs s1 of
                     (Inl e, s2) \<Rightarrow> (Inl e, fst s2)
                   | (Inr data2, s2) \<Rightarrow>
                       (case second_pass allData prevData data2 retryURLs of
                          Inl e \<Rightarrow> (Inl e, fst s2)
                        | Inr final \<Rightarrow>
                            (Inr final,
                             (fst s2)\<lparr>datasets := (datasets (fst s2))(path \<mapsto> Json final)\<rparr>)))))"

section \<open>\<^verbatim>\<open>importIDL\<close>\<close>

text \<open>
  One element of the batch: \<^verbatim>\<open>loadURL(url).then(parse)\<close>, and around it \<^verbatim>\<open>.catch(\<dots>)\<close>. What
  \<^verbatim>\<open>loadURL\<close> rejects with and what \<^verbatim>\<open>parse\<close> throws reaches the handler of \<^verbatim>\<open>catch\<close>; an
  exception that escaped the event handler of \<^verbatim>\<open>loadURL\<close> does not.
\<close>

definition load_then_parse ::
  "'f world \<Rightarrow> string option list \<Rightarrow> nat \<Rightarrow> string \<Rightarrow> 'f disk \<Rightarrow>
     (error + 'f parse_record) option \<times> 'f disk" where
  "load_then_parse w begun i u d =
     (case loadURL_end w u (begun ! i) d of
        (None, d1) \<Rightarrow> (None, d1)
      | (Some (Inl e), d1) \<Rightarrow> (Some (Inl e), d1)
      | (Some (Inr res), d1) \<Rightarrow> (case parse w res d1 of (r, d2) \<Rightarrow> (Some r, d2)))"

definition load_job ::
  "'f world \<Rightarrow> string option list \<Rightarrow> nat \<Rightarrow> string \<Rightarrow> 'f disk \<Rightarrow>
     (error + 'f parse_record) option \<times> 'f disk" where
  "load_job w begun i u d =
     (case load_then_parse w begun i u d of
        (None, d2) \<Rightarrow> (None, d2)
      | (Some (Inl e), d2) \<Rightarrow> (Some (Inr \<lparr>url = u, parses = []\<rparr>), d2)
      | (Some (Inr r), d2) \<Rightarrow> (Some (Inr r), d2))"

text \<open>
  \<^verbatim>\<open>importIDL\<close>. The result is \<open>None\<close> when the promise it returns never settles, because
  an exception escaped an event handler.
\<close>

definition importIDL ::
  "'f world \<Rightarrow> string list \<Rightarrow> string \<Rightarrow> 'f disk \<Rightarrow>
     (error + 'f parse_record list) option \<times> 'f disk" where
  "importIDL w urls path d0 =
     (let us = sort (uniq urls); begun = map (loadURL_begin d0) us in
      case settle_until_throw (load_job w begun) us
             (completion_order (completion w 0) (length us)) d0 of
        (None, d1) \<Rightarrow> (None, d1)
      | (Some settled, d1) \<Rightarrow>
          (case promise_all settled of
             Inl e \<Rightarrow> (Some (Inl e), d1)
           | Inr data \<Rightarrow>
               (Some (Inr data), d1\<lparr>datasets := (datasets d1)(path \<mapsto> Json data)\<rparr>)))"

section \<open>The runner over local files: \<^verbatim>\<open>BlinkLinkedRunner\<close>\<close>

text \<open>
  What the pipeline hands to the gather stage in \<^verbatim>\<open>output.delegates\<close>: arrays nested to
  some depth around parse objects. A parse object has no \<^verbatim>\<open>length\<close> property. The
  \<^verbatim>\<open>output\<close> itself is missing, an empty array, or an object with the URL list
  \<^verbatim>\<open>output.output\<close> and the delegates.
\<close>

datatype 'p nest = Parse 'p | Arr "'p nest list"

datatype 'p memo_output = Absent | Empty_Array | Output "string list" "'p nest"

text \<open>
  The fields of the runner. \<^verbatim>\<open>init\<close> sets \<open>running\<close> and \<open>eachFilePromises\<close> (the files
  whose promise was pushed) only: the accumulators \<open>urlsToFiles\<close> and \<open>urlsToParses\<close> and
  \<open>pipeline\<close> (\<^verbatim>\<open>this.pipeline\<close>) are \<^verbatim>\<open>undefined\<close>, here \<open>None\<close>, until the first run.
  \<open>bound\<close> tells whether the chain made by \<^verbatim>\<open>memos.bind\<close> is still attached.
\<close>

record ('p, 'm) runner =
  running :: bool
  eachFilePromises :: "string list"
  urlsToFiles :: "(string \<rightharpoonup> string list) option"
  urlsToParses :: "(string \<rightharpoonup> 'p nest list) option"
  pipeline :: "'m option"
  bound :: bool

text \<open>
  The \<^verbatim>\<open>while (parses.length !== urls.length)\<close> loop of the gather stage: on a parse
  object \<^verbatim>\<open>parses.length\<close> is \<^verbatim>\<open>undefined\<close>, which differs from the URL count and from 1.
\<close>

fun align :: "nat \<Rightarrow> 'p nest \<Rightarrow> error + 'p nest list" where
  "align n (Parse p) = Inl MalformedMemoOutput"
| "align n (Arr []) = (if 0 = n then Inr [] else Inl MalformedMemoOutput)"
| "align n (Arr [x]) = (if 1 = n then Inr [x] else align n x)"
| "align n (Arr (x # y # zs)) =
     (if length (x # y # zs) = n then Inr (x # y # zs) else Inl MalformedMemoOutput)"

text \<open>
  \<^verbatim>\<open>parsesFromURL.reduce((acc, parseFromTag) => acc = acc.concat(parseFromTag), [])\<close>:
  \<^verbatim>\<open>concat\<close> appends the elements of an array and appends anything else as it is. A parse
  object in the place of \<^verbatim>\<open>parsesFromURL\<close> has no \<^verbatim>\<open>reduce\<close>.
\<close>

fun concat_tags :: "'p nest \<Rightarrow> error + 'p nest list" where
  "concat_tags (Parse p) = Inl TypeError"
| "concat_tags (Arr ts) =
     Inr (foldl (\<lambda>acc t. case t of Arr es \<Rightarrow> acc @ es | Parse q \<Rightarrow> acc @ [Parse q]) [] ts)"

fun map_throwing :: "('a \<Rightarrow> error + 'b) \<Rightarrow> 'a list \<Rightarrow> error + 'b list" where
  "map_throwing f [] = Inr []"
| "map_throwing f (x # xs) =
     (case f x of
        Inl e \<Rightarrow> Inl e
      | Inr y \<Rightarrow> (case map_throwing f xs of Inl e \<Rightarrow> Inl e | Inr ys \<Rightarrow> Inr (y # ys)))"

text \<open>
  The \<^verbatim>\<open>for\<close> loop that records the file and the parses of every URL. Indexing an
  accumulator that is \<^verbatim>\<open>undefined\<close> is a TypeError. The accumulators are plain objects:
  reading \<^verbatim>\<open>urlsToFiles[url]\<close> at a name inherited from \<^verbatim>\<open>Object.prototype\<close> yields a value
  without \<^verbatim>\<open>push\<close>. The file is pushed before \<^verbatim>\<open>urlsToParses\<close> is touched.
\<close>

fun record_urls ::
  "string \<Rightarrow> (string \<times> 'p nest list) list \<Rightarrow> ('p, 'm) runner \<Rightarrow> (error + unit) \<times> ('p, 'm) runner" where
  "record_urls src [] r = (Inr (), r)"
| "record_urls src ((u, ps) # rest) r =
     (case urlsToFiles r of
        None \<Rightarrow> (Inl TypeError, r)
      | Some files \<Rightarrow>
          if files u = None \<and> u \<in> set object_prototype_names then (Inl TypeError, r)
          else
            let pushed = files(u \<mapsto> (case files u of None \<Rightarrow> [] | Some fs \<Rightarrow> fs) @ [src])
            in (case urlsToParses r of
                  None \<Rightarrow> (Inl TypeError, r\<lparr>urlsToFiles := Some pushed\<rparr>)
                | Some parsed \<Rightarrow>
                    record_urls src rest
                      (r\<lparr>urlsToFiles := Some pushed, urlsToParses := Some (parsed(u \<mapsto> ps))\<rparr>)))"

text \<open>The function \<^verbatim>\<open>f\<close> of the memo \<^verbatim>\<open>this.gather\<close>, on \<^verbatim>\<open>{file, output}\<close>.\<close>

definition gather ::
  "string \<Rightarrow> 'p memo_output \<Rightarrow> ('p, 'm) runner \<Rightarrow> (error + unit) \<times> ('p, 'm) runner" where
  "gather src out r =
     (case out of
        Absent \<Rightarrow> (Inr (), r)
      | Empty_Array \<Rightarrow> (Inr (), r)
      | Output urls delegates \<Rightarrow>
          (case align (length urls) delegates of
             Inl e \<Rightarrow> (Inl e, r)
           | Inr aligned \<Rightarrow>
               (case map_throwing concat_tags aligned of
                  Inl e \<Rightarrow> (Inl e, r)
                | Inr ps \<Rightarrow> record_urls src (zip urls ps) r)))"

text \<open>
  \<^verbatim>\<open>run()\<close> up to the point where it returns its promise, with the fresh chain of memos as
  a parameter, and the closure \<^verbatim>\<open>finish\<close>.
\<close>

definition run :: "'m \<Rightarrow> ('p, 'm) runner \<Rightarrow> (error + unit) \<times> ('p, 'm) runner" where
  "run fresh r =
     (if running r then (Inl AlreadyRunning, r)
      else (Inr (),
            r\<lparr>running := True, urlsToFiles := Some Map.empty,
              urlsToParses := Some Map.empty, bound := True, pipeline := Some fresh\<rparr>))"

definition finish :: "('p, 'm) runner \<Rightarrow> ('p, 'm) runner" where
  "finish r = r\<lparr>bound := False, running := False\<rparr>"

text \<open>
  What happens to a runner: a call of \<^verbatim>\<open>run\<close>; the glob stream delivers a file
  (\<^verbatim>\<open>processFile\<close> calls \<^verbatim>\<open>this.pipeline.runAll\<close>, which throws without a pipeline, and
  pushes the promise); the pipeline of a file finishes and the gather stage
  runs on its output; the glob stream fails (\<^verbatim>\<open>onError\<close>, then \<^verbatim>\<open>finish\<close>); the glob
  stream ends (\<^verbatim>\<open>onDataReady\<close> or \<^verbatim>\<open>onError\<close>, neither of which calls \<^verbatim>\<open>finish\<close>).
\<close>

datatype ('p, 'm) event =
    Call_run 'm
  | Glob_data string
  | Pipeline_done string "'p memo_output"
  | Glob_error
  | Glob_end

fun fire :: "('p, 'm) runner \<Rightarrow> ('p, 'm) event \<Rightarrow> ('p, 'm) runner" where
  "fire r (Call_run fresh) = snd (run fresh r)"
| "fire r (Glob_data src) =
     (case pipeline r of
        None \<Rightarrow> r
      | Some chain \<Rightarrow> r\<lparr>eachFilePromises := eachFilePromises r @ [src]\<rparr>)"
| "fire r (Pipeline_done src out) = snd (gather src out r)"
| "fire r Glob_error = finish r"
| "fire r Glob_end = r"

section \<open>Concrete runs\<close>

text \<open>
  Inputs on which the properties below are evaluated. \<open>idle_runner\<close> is a runner after
  \<^verbatim>\<open>init\<close>.
\<close>

definition idle_runner :: "(nat, nat) runner" where
  "idle_runner =
     \<lparr>running = False, eachFilePromises = [], urlsToFiles = None,
      urlsToParses = None, pipeline = None, bound = False\<rparr>"

definition some_events :: "(nat, nat) event list" where
  "some_events =
     [Glob_data ''a.idl'',
      Pipeline_done ''a.idl'' (Output [''http://x/''] (Arr [Arr [Arr [Parse 5]]])),
      Glob_end, Call_run 3]"

text \<open>
  A parser that knows two texts, a disk with nothing on it but the empty cache
  directories, a URL and the name of a dataset file.
\<close>

definition toy_parser :: "string \<Rightarrow> bool \<times> nat list" where
  "toy_parser idl =
     (if idl = ''two'' then (True, [1, 2])
      else if idl = ''four'' then (True, [1, 2, 3, 4])
      else (False, []))"

definition blank_disk :: "nat disk" where
  "blank_disk =
     \<lparr>urlcache_dir = True, urlcache = Map.empty, idlcache = Map.empty, datasets = Map.empty\<rparr>"

text \<open>The same without the directory \<^verbatim>\<open>.urlcache\<close>.\<close>

definition bare_disk :: "nat disk" where
  "bare_disk = blank_disk\<lparr>urlcache_dir := False\<rparr>"

definition u0 :: string where
  "u0 = ''https://a.com/''"

definition out_path :: string where
  "out_path = ''out.json''"

text \<open>A disk whose dataset file holds three fragments for \<open>u0\<close>.\<close>

definition prior_disk :: "nat disk" where
  "prior_disk = blank_disk\<lparr>datasets := [out_path \<mapsto> Json [\<lparr>url = u0, parses = [7, 8, 9]\<rparr>]]\<rparr>"


text \<open>
  Worlds: the scraper delivers \<open>first\<close> on the first pass and \<open>second\<close> on the second,
  every request delivers \<open>first\<close>, and the jobs settle in the order of the hint.
\<close>

definition toy_world :: "(error + content) \<Rightarrow> (error + content) \<Rightarrow> nat list \<Rightarrow> nat world" where
  "toy_world first second hint =
     \<lparr>parseString = toy_parser,
      scrape = (\<lambda>pass i u. if pass = 1 then first else second),
      request = (\<lambda>u. case first of Inl e \<Rightarrow> Inl e | Inr c \<Rightarrow> Inr (Some (concat (candidates c)))),
      completion = (\<lambda>k. hint)\<rparr>"

text \<open>
  Three worlds for \<open>u0\<close>: the second pass finds the same two fragments as the first, the
  second pass finds four, the second pass fails.
\<close>

definition regress_world :: "nat world" where
  "regress_world = toy_world (Inr (One ''two'')) (Inr (One ''two'')) []"

definition recover_world :: "nat world" where
  "recover_world = toy_world (Inr (One ''two'')) (Inr (Many [''prose'', ''four''])) []"

definition flaky_world :: "nat world" where
  "flaky_world = toy_world (Inr (One ''two'')) (Inl (External ''timeout'')) []"

text \<open>A world in which every scrape and every request fails.\<close>

definition dead_world :: "nat world" where
  "dead_world = toy_world (Inl (External ''timeout'')) (Inl (External ''timeout'')) []"

section \<open>Invariants of the canonicaliser\<close>

text \<open>
  The predicates used to reason about \<^verbatim>\<open>urlMap\<close>: a scheme is one of the two the pattern
  accepts; a key is free of line terminators and is not a name inherited from
  \<^verbatim>\<open>Object.prototype\<close>; an entry has such a key and a list of schemes that is not empty; the
  object has no name twice.
\<close>

definition scheme_ok :: "string \<Rightarrow> bool" where
  "scheme_ok s \<longleftrightarrow> s = ''http'' \<or> s = ''https''"

definition key_ok :: "string \<Rightarrow> bool" where
  "key_ok k \<longleftrightarrow> (\<forall>c \<in> set k. \<not> line_terminator c) \<and> k \<notin> set object_prototype_names"

definition entry_ok :: "string \<times> string list \<Rightarrow> bool" where
  "entry_ok p \<longleftrightarrow> key_ok (fst p) \<and> snd p \<noteq> [] \<and> (\<forall>s \<in> set (snd p). scheme_ok s)"

definition wf_map :: "urlMap \<Rightarrow> bool" where
  "wf_map m \<longleftrightarrow> distinct (map fst m) \<and> (\<forall>p \<in> set m. entry_ok p)"

text \<open>The entry a second canonicalisation makes of an entry: the emitted scheme alone.\<close>

definition emitted :: "string \<times> string list \<Rightarrow> string \<times> string list" where
  "emitted p = (fst p, [pop_scheme (snd p)])"

section \<open>Delegates that cannot be aligned\<close>

text \<open>
  In the words of the claim about the gather stage: the delegates at every unwrapping
  depth, that is, the delegates themselves and, as long as the value at hand is an array
  of one element, that element; and whether a value is an array of a given length (a
  parse object is not). The delegates cannot be aligned with \<open>n\<close> URLs when none of
  their unwrappings is an array of length \<open>n\<close>.
\<close>

fun unwrappings :: "'p nest \<Rightarrow> 'p nest list" where
  "unwrappings (Arr [x]) = Arr [x] # unwrappings x"
| "unwrappings v = [v]"

fun has_length :: "nat \<Rightarrow> 'p nest \<Rightarrow> bool" where
  "has_length n (Arr xs) \<longleftrightarrow> length xs = n"
| "has_length n (Parse p) \<longleftrightarrow> False"

section \<open>The state on which a job of a batch runs\<close>

text \<open>
  \<open>state_before job xs ord s i\<close> is the state that \<open>settle\<close> hands to job \<open>i\<close>: the
  state left by the jobs that settle before it in the order \<open>ord\<close>.
\<close>

fun state_before ::
  "(nat \<Rightarrow> 'a \<Rightarrow> 's \<Rightarrow> 'r \<times> 's) \<Rightarrow> 'a list \<Rightarrow> nat list \<Rightarrow> 's \<Rightarrow> nat \<Rightarrow> 's" where
  "state_before job xs [] s i = s"
| "state_before job xs (j # js) s i =
     (if j = i then s else state_before job xs js (snd (job j (xs ! j) s)) i)"

section \<open>\<^verbatim>\<open>parse\<close> and the cache of parse records\<close>








section \<open>Batches resolve\<close>

lemma completion_order_distinct: "distinct (completion_order h n)"
  by (auto simp: completion_order_def)

lemma completion_order_set: "set (completion_order h n) = {0..<n}"
  by (auto simp: completion_order_def)

lemma fst_settle_Cons:
  "fst (settle job xs (i # js) s) =
     (i, fst (job i (xs ! i) s)) # fst (settle job xs js (snd (job i (xs ! i) s)))"
  by (simp split: prod.splits)

lemma settle_indices: "map fst (fst (settle job xs ord s)) = ord"
  by (induction ord arbitrary: s) (simp_all only: fst_settle_Cons, simp_all)

lemma settle_results:
  "(i, r) \<in> set (fst (settle job xs ord s)) \<Longrightarrow> \<exists>s'. r = fst (job i (xs ! i) s')"
proof (induction ord arbitrary: s)
  case Nil
  then show ?case by simp
next
  case (Cons j js)
  from Cons.prems
  have "(i, r) = (j, fst (job j (xs ! j) s)) \<or>
        (i, r) \<in> set (fst (settle job xs js (snd (job j (xs ! j) s))))"
    unfolding fst_settle_Cons by simp
  then show ?case
  proof
    assume "(i, r) = (j, fst (job j (xs ! j) s))"
    then have "r = fst (job i (xs ! i) s)" by simp
    then show ?thesis by blast
  next
    assume "(i, r) \<in> set (fst (settle job xs js (snd (job j (xs ! j) s))))"
    then show ?thesis by (rule Cons.IH)
  qed
qed

lemma rejections_none:
  "\<forall>p \<in> set L. \<exists>v. snd p = Inr v \<Longrightarrow> rejections L = []"
  by (induction L rule: rejections.induct) auto

lemma fulfilments_all:
  "\<forall>p \<in> set L. \<exists>v. snd p = Inr v \<Longrightarrow> map Inr (fulfilments L) = map snd L"
  by (induction L rule: fulfilments.induct) auto

lemma sorted_indices:
  assumes "distinct (map fst L)" and "set (map fst L) = {0..<n}"
  shows "map fst (sort_key fst L) = [0..<n]"
proof (rule sorted_distinct_set_unique)
  show "sorted (map fst (sort_key fst L))" by (rule sorted_sort_key)
  show "distinct (map fst (sort_key fst L))"
    using assms(1) by (simp add: distinct_map)
  show "set (map fst (sort_key fst L)) = set [0..<n]"
    using assms(2) by simp
qed simp_all

text \<open>A batch whose jobs never reject resolves, position by position.\<close>

lemma batch_positions:
  assumes never: "\<And>i x s. \<exists>v. fst (job i x s) = Inr v"
  shows "\<exists>data. promise_all (fst (settle job xs (completion_order h (length xs)) s)) = Inr data \<and>
           length data = length xs \<and>
           (\<forall>i < length xs.
              (i, Inr (data ! i)) \<in> set (fst (settle job xs (completion_order h (length xs)) s)))"
proof -
  let ?L = "fst (settle job xs (completion_order h (length xs)) s)"
  let ?S = "sort_key fst ?L"
  have ok: "\<forall>p \<in> set ?L. \<exists>v. snd p = Inr v"
  proof
    fix p assume "p \<in> set ?L"
    then have "(fst p, snd p) \<in> set ?L" by simp
    from settle_results [OF this] never show "\<exists>v. snd p = Inr v" by metis
  qed
  then have ok': "\<forall>p \<in> set ?S. \<exists>v. snd p = Inr v" by simp
  have idx: "map fst ?S = [0..<length xs]"
    by (rule sorted_indices)
       (simp_all add: settle_indices completion_order_distinct completion_order_set)
  have vals: "map Inr (fulfilments ?S) = map snd ?S"
    using ok' by (rule fulfilments_all)
  have len: "length (fulfilments ?S) = length xs"
    using arg_cong [OF vals, of length] arg_cong [OF idx, of length] by simp
  have "(i, Inr (fulfilments ?S ! i)) \<in> set ?L" if i: "i < length xs" for i
  proof -
    have lenS: "i < length ?S" using arg_cong [OF idx, of length] i by simp
    have "fst (?S ! i) = i"
      using arg_cong [OF idx, of "\<lambda>l. l ! i"] i lenS by simp
    moreover have "snd (?S ! i) = Inr (fulfilments ?S ! i)"
      using arg_cong [OF vals, of "\<lambda>l. l ! i"] i lenS len by simp
    ultimately have "(i, Inr (fulfilments ?S ! i)) \<in> set ?S"
      using lenS by (metis nth_mem prod.collapse)
    then show ?thesis by simp
  qed
  moreover have "promise_all ?L = Inr (fulfilments ?S)"
    using rejections_none [OF ok] by (simp add: promise_all_def)
  ultimately show ?thesis using len by blast
qed

lemma batch_resolves:
  assumes never: "\<And>i x s. \<exists>v. fst (job i x s) = Inr v"
  shows "\<exists>data. promise_all (fst (settle job xs (completion_order h (length xs)) s)) = Inr data \<and>
           length data = length xs \<and>
           (\<forall>i < length xs. \<exists>s'. fst (job i (xs ! i) s') = Inr (data ! i))"
proof -
  from batch_positions [of job xs h s, OF never] obtain data where
    d: "promise_all (fst (settle job xs (completion_order h (length xs)) s)) = Inr data"
       "length data = length xs"
       "\<forall>i < length xs.
          (i, Inr (data ! i)) \<in> set (fst (settle job xs (completion_order h (length xs)) s))"
    by blast
  have "\<exists>s'. fst (job i (xs ! i) s') = Inr (data ! i)" if "i < length xs" for i
    using settle_results [of i "Inr (data ! i)" job xs] d(3) that by metis
  with d(1,2) show ?thesis by blast
qed

text \<open>The result at a position is that of its job on the state on which the job ran.\<close>

lemma settle_at:
  "i \<in> set ord \<Longrightarrow>
     (i, fst (job i (xs ! i) (state_before job xs ord s i))) \<in> set (fst (settle job xs ord s))"
proof (induction ord arbitrary: s)
  case Nil
  then show ?case by simp
next
  case (Cons j js)
  show ?case
  proof (cases "j = i")
    case True
    then show ?thesis unfolding fst_settle_Cons by simp
  next
    case False
    with Cons.prems have "i \<in> set js" by simp
    from Cons.IH [OF this, of "snd (job j (xs ! j) s)"] False
    show ?thesis unfolding fst_settle_Cons by simp
  qed
qed

lemma settle_unique:
  assumes "distinct ord"
    and "(i, r) \<in> set (fst (settle job xs ord s))"
    and "(i, r') \<in> set (fst (settle job xs ord s))"
  shows "r = r'"
proof -
  have "distinct (map fst (fst (settle job xs ord s)))"
    using assms(1) by (simp add: settle_indices)
  from eq_key_imp_eq_value [OF this assms(2,3)] show ?thesis .
qed

lemma batch_pinned:
  assumes never: "\<And>i x s. \<exists>v. fst (job i x s) = Inr v"
  shows "\<exists>data. promise_all (fst (settle job xs (completion_order h (length xs)) s)) = Inr data \<and>
           length data = length xs \<and>
           (\<forall>i < length xs.
              fst (job i (xs ! i) (state_before job xs (completion_order h (length xs)) s i)) =
                Inr (data ! i))"
proof -
  let ?ord = "completion_order h (length xs)"
  from batch_positions [of job xs h s, OF never] obtain data where
    d: "promise_all (fst (settle job xs ?ord s)) = Inr data"
       "length data = length xs"
       "\<forall>i < length xs. (i, Inr (data ! i)) \<in> set (fst (settle job xs ?ord s))"
    by blast
  have "fst (job i (xs ! i) (state_before job xs ?ord s i)) = Inr (data ! i)"
    if i: "i < length xs" for i
  proof -
    from i have "i \<in> set ?ord" by (simp add: completion_order_set)
    from settle_at [OF this, of job xs s] d(3) i
    show ?thesis
      using settle_unique [OF completion_order_distinct, of i _ job xs h "length xs" s]
      by blast
  qed
  with d(1,2) show ?thesis by blast
qed

section \<open>Failures of single URLs\<close>

lemma scrape_job_caught:
  "fst (scrape_job w pass i u s) =
     Inr (case fst (scrape_then_parse w pass i u (fst s)) of
            Inl err \<Rightarrow> \<lparr>url = u, parses = []\<rparr> | Inr r \<Rightarrow> r)"
  by (simp add: scrape_job_def split: prod.splits sum.splits)

lemma scrape_failure: "scrape w pass i u = Inl e \<Longrightarrow> fst (scrape_then_parse w pass i u d) = Inl e"
  by (simp add: scrape_then_parse_def)

lemma scrapeURLs_resolves:
  "\<exists>data. fst (scrapeURLs w pass urls s) = Inr data \<and> length data = length urls"
proof -
  have "\<exists>v. fst (scrape_job w pass i x s) = Inr v" for i x s
    by (simp add: scrape_job_caught)
  from batch_resolves [of "scrape_job w pass", OF this, of urls "completion w pass" s]
  show ?thesis by (auto simp: scrapeURLs_def case_prod_beta)
qed

text \<open>
  In \<^verbatim>\<open>scrapeURLs\<close> every failure is caught: the batch resolves with one record per URL,
  in the order of the URLs, and the record at position \<open>i\<close> is decided by what scraping
  and parsing that URL does on the disk on which its job runs: the record
  \<^verbatim>\<open>{url, parses: []}\<close> when the scrape is rejected or \<^verbatim>\<open>parse\<close> throws there, the record
  \<^verbatim>\<open>parse\<close> returns there otherwise.
\<close>

lemma scrapeURLs_pinned:
  "\<exists>data. fst (scrapeURLs w pass urls s) = Inr data \<and> length data = length urls \<and>
     (\<forall>i < length urls.
        data ! i =
          (case fst (scrape_then_parse w pass i (urls ! i)
                       (fst (state_before (scrape_job w pass) urls
                               (completion_order (completion w pass) (length urls)) s i))) of
             Inl err \<Rightarrow> \<lparr>url = urls ! i, parses = []\<rparr>
           | Inr r \<Rightarrow> r))"
proof -
  have "\<exists>v. fst (scrape_job w pass i x s) = Inr v" for i x s
    by (simp add: scrape_job_caught)
  from batch_pinned [of "scrape_job w pass", OF this, of urls "completion w pass" s]
  show ?thesis
    unfolding scrape_job_caught by (auto simp: scrapeURLs_def case_prod_beta)
qed

text \<open>
  In \<^verbatim>\<open>importIDL\<close> the handler of \<^verbatim>\<open>catch\<close> does the same with what \<^verbatim>\<open>loadURL\<close> rejects with
  and with what \<^verbatim>\<open>parse\<close> throws, but the job has a third outcome: the exception of
  \<^verbatim>\<open>fs.writeFileSync\<close> in the \<^verbatim>\<open>end\<close> handler, when the response came and the body is
  missing or the directory is.
\<close>

lemma load_job_caught:
  "fst (load_job w begun i u d) =
     (case fst (load_then_parse w begun i u d) of
        None \<Rightarrow> None
      | Some (Inl err) \<Rightarrow> Some (Inr \<lparr>url = u, parses = []\<rparr>)
      | Some (Inr r) \<Rightarrow> Some (Inr r))"
  by (simp add: load_job_def split: prod.splits option.splits sum.splits)

lemma load_throws_iff:
  "fst (load_then_parse w begun i u d) = None \<longleftrightarrow>
     begun ! i = None \<and>
     (request w u = Inr None \<or> (\<exists>body. request w u = Inr (Some body) \<and> \<not> urlcache_dir d))"
  by (auto simp: load_then_parse_def loadURL_end_def
      split: prod.splits option.splits sum.splits if_splits)

text \<open>
  C5 fails on the code in \<^verbatim>\<open>importIDL\<close>. The directory \<^verbatim>\<open>.urlcache\<close> does not exist
  (\<^verbatim>\<open>importIDL\<close> does not call \<^verbatim>\<open>prepareToScrape\<close>), nothing is cached for \<open>u0\<close> and the
  request delivers a body. Writing the body throws in the \<^verbatim>\<open>end\<close> handler, the job of \<open>u0\<close>
  neither resolves nor rejects, no handler of \<^verbatim>\<open>catch\<close> runs, and the promise of
  \<^verbatim>\<open>importIDL\<close> never settles: no record \<^verbatim>\<open>{url, parses: []}\<close> and no Dataset.
\<close>

theorem importIDL_write_escapes:
  "urlcache_dir bare_disk = False \<and>
   loadURL_begin bare_disk u0 = None \<and>
   request regress_world u0 = Inr (Some ''two'') \<and>
   fst (load_job regress_world [loadURL_begin bare_disk u0] 0 u0 bare_disk) = None \<and>
   fst (importIDL regress_world [u0] out_path bare_disk) = None \<and>
   datasets (snd (importIDL regress_world [u0] out_path bare_disk)) out_path = None"
  by code_simp

section \<open>Reconciliation in \<^verbatim>\<open>importHTTP\<close>\<close>
















text \<open>
  C2 fails on the code. The prior Dataset has three fragments for \<open>u0\<close>, the first pass
  finds two, \<open>u0\<close> is retried and the second pass finds four; the Dataset written holds
  the first-pass record with two fragments.
\<close>

theorem importHTTP_ignores_second_pass:
  "read_dataset prior_disk out_path = Some [\<lparr>url = u0, parses = [7, 8, 9]\<rparr>] \<and>
   fst (first_pass recover_world [u0] prior_disk) = Inr [\<lparr>url = u0, parses = [1, 2]\<rparr>] \<and>
   retry_urls [\<lparr>url = u0, parses = [1, 2]\<rparr>] (Some [\<lparr>url = u0, parses = [7, 8, 9 :: nat]\<rparr>]) = [u0] \<and>
   fst (retry_pass recover_world [u0] (snd (first_pass recover_world [u0] prior_disk))) =
     Inr [\<lparr>url = u0, parses = [1, 2, 3, 4]\<rparr>] \<and>
   fst (importHTTP recover_world [u0] out_path prior_disk) = Inr [\<lparr>url = u0, parses = [1, 2]\<rparr>] \<and>
   datasets (snd (importHTTP recover_world [u0] out_path prior_disk)) out_path =
     Some (Json [\<lparr>url = u0, parses = [1, 2]\<rparr>])"
  by code_simp

text \<open>
  C3 fails on the code. The prior Dataset has fragments for \<open>u0\<close>, which is not among the
  URLs of this run; \<open>u0\<close> is retried and its scrape fails. The loop takes the branch for a
  missing second-pass record, the run is rejected with a ReferenceError and the Dataset
  file keeps its old content: the record of \<^verbatim>\<open>https://b.org/\<close> is not written.
\<close>

theorem importHTTP_reference_error:
  "read_dataset prior_disk out_path = Some [\<lparr>url = u0, parses = [7, 8, 9]\<rparr>] \<and>
   fst (first_pass flaky_world [''https://b.org/''] prior_disk) =
     Inr [\<lparr>url = ''https://b.org/'', parses = [1, 2]\<rparr>] \<and>
   retry_urls [\<lparr>url = ''https://b.org/'', parses = [1, 2]\<rparr>]
     (Some [\<lparr>url = u0, parses = [7, 8, 9 :: nat]\<rparr>]) = [u0] \<and>
   fst (retry_pass flaky_world [u0] (snd (first_pass flaky_world [''https://b.org/''] prior_disk))) =
     Inr [\<lparr>url = u0, parses = []\<rparr>] \<and>
   fst (importHTTP flaky_world [''https://b.org/''] out_path prior_disk) = Inl ReferenceError \<and>
   datasets (snd (importHTTP flaky_world [''https://b.org/''] out_path prior_disk)) out_path =
     Some (Json [\<lparr>url = u0, parses = [7, 8, 9]\<rparr>])"
  by code_simp

text \<open>
  C8 fails on the code. Two URLs that differ in a character that is not alphanumeric
  have the same cache file name; the job that settles second finds the record the first
  one cached and returns it, with the URL of the first. With empty caches and the jobs
  settling in the order of the URLs, \<^verbatim>\<open>importHTTP\<close> writes two records for one URL, and
  \<^verbatim>\<open>importIDL\<close> writes a Dataset that has two records for one URL and is not sorted.
\<close>

theorem cache_name_collision:
  "getUniqueURLs [''https://a.b/'', ''https://a-b/''] = Inr [''https://a.b/'', ''https://a-b/''] \<and>
   getCacheFileName ''https://a.b/'' = getCacheFileName ''https://a-b/'' \<and>
   datasets (snd (importHTTP regress_world [''https://a.b/'', ''https://a-b/''] out_path blank_disk))
       out_path =
     Some (Json [\<lparr>url = ''https://a.b/'', parses = [1, 2]\<rparr>,
                 \<lparr>url = ''https://a.b/'', parses = [1, 2]\<rparr>]) \<and>
   datasets (snd (importIDL regress_world [''http://a-c'', ''http://a-d'', ''http://a.c'']
                    out_path blank_disk)) out_path =
     Some (Json [\<lparr>url = ''http://a-c'', parses = [1, 2]\<rparr>,
                 \<lparr>url = ''http://a-d'', parses = [1, 2]\<rparr>,
                 \<lparr>url = ''http://a-c'', parses = [1, 2]\<rparr>]) \<and>
   \<not> sorted [''http://a-c'', ''http://a-d'', ''http://a-c'']"
  by code_simp

section \<open>Canonical URLs\<close>

subsection \<open>Properties of the object model\<close>

lemma put_keys: "fst ` set (put k v m) = insert k (fst ` set m)"
  by (induction m) auto

lemma put_absent: "k \<notin> fst ` set m \<Longrightarrow> put k v m = m @ [(k, v)]"
  by (induction m) auto

lemma put_map_fst_present: "k \<in> fst ` set m \<Longrightarrow> map fst (put k v m) = map fst m"
  by (induction m) auto

lemma put_distinct: "distinct (map fst m) \<Longrightarrow> distinct (map fst (put k v m))"
  by (cases "k \<in> fst ` set m") (auto simp: put_absent put_map_fst_present)

lemma put_entries: "p \<in> set (put k v m) \<Longrightarrow> p = (k, v) \<or> p \<in> set m"
  by (induction m) (auto split: if_splits)

lemma delete_prop_keys: "fst ` set (delete_prop k m) = fst ` set m - {k}"
  by (auto simp: delete_prop_def)

lemma delete_prop_distinct: "distinct (map fst m) \<Longrightarrow> distinct (map fst (delete_prop k m))"
  by (simp add: delete_prop_def distinct_map_filter)

lemma map_of_None_keys: "map_of m k = None \<longleftrightarrow> k \<notin> fst ` set m"
  by (simp add: map_of_eq_None_iff)

subsection \<open>What the pattern accepts\<close>

lemma match_url_parts:
  "match_url u = Some (s, k) \<Longrightarrow> scheme_ok s \<and> (\<forall>c \<in> set k. \<not> line_terminator c)"
  by (auto simp: match_url_def scheme_ok_def split: if_splits)

lemma match_url_build:
  "scheme_ok s \<Longrightarrow> \<forall>c \<in> set k. \<not> line_terminator c \<Longrightarrow> match_url (s @ ''://'' @ k) = Some (s, k)"
  by (auto simp: match_url_def scheme_ok_def)


lemma uniq_set: "set (uniq xs) = set xs"
  by (induction xs rule: uniq.induct) auto

lemma sort_key_nonempty: "xs \<noteq> [] \<Longrightarrow> sort_key f xs \<noteq> []"
  by (auto dest: arg_cong [where f = length])

lemma uniq_nonempty: "xs \<noteq> [] \<Longrightarrow> uniq xs \<noteq> []"
  by (cases xs) auto

subsection \<open>The first traversal keeps the object well formed\<close>

lemma note_scheme_wf:
  assumes "wf_map m" and "note_scheme m u = Inr m'"
  shows "wf_map m'"
proof -
  from assms(2) obtain s k where mu: "match_url u = Some (s, k)"
    by (auto simp: note_scheme_def split: option.splits)
  from match_url_parts [OF mu] have s: "scheme_ok s" and k: "\<forall>c \<in> set k. \<not> line_terminator c"
    by simp_all
  show ?thesis
  proof (cases "map_of m k")
    case None
    with assms(2) mu have proto: "k \<notin> set object_prototype_names" and m': "m' = put k [s] m"
      by (auto simp: note_scheme_def split: if_splits)
    have "entry_ok (k, [s])" using s k proto by (simp add: entry_ok_def key_ok_def)
    then show ?thesis
      using assms(1) unfolding m' wf_map_def by (auto simp: put_distinct dest: put_entries)
  next
    case (Some ss)
    then have "(k, ss) \<in> set m" by (rule map_of_SomeD)
    with assms(1) have old: "entry_ok (k, ss)" by (auto simp: wf_map_def)
    show ?thesis
    proof (cases "filter (\<lambda>x. x = s) ss = []")
      case True
      with assms(2) mu Some have m': "m' = put k (sort (ss @ [s])) m"
        by (simp add: note_scheme_def)
      have "entry_ok (k, sort (ss @ [s]))"
        using old s by (auto simp: entry_ok_def sort_key_nonempty)
      then show ?thesis
        using assms(1) unfolding m' wf_map_def by (auto simp: put_distinct dest: put_entries)
    next
      case False
      with assms(2) mu Some have "m' = m" by (simp add: note_scheme_def)
      with assms(1) show ?thesis by simp
    qed
  qed
qed

lemma note_schemes_wf: "wf_map m \<Longrightarrow> note_schemes m us = Inr m' \<Longrightarrow> wf_map m'"
proof (induction us arbitrary: m)
  case Nil
  then show ?case by simp
next
  case (Cons u us)
  from Cons.prems(2) obtain m1 where 1: "note_scheme m u = Inr m1" and 2: "note_schemes m1 us = Inr m'"
    by (auto split: sum.splits)
  from note_scheme_wf [OF Cons.prems(1) 1] 2 show ?case by (rule Cons.IH)
qed

subsection \<open>The second traversal\<close>

lemma merge_slash_wf: "wf_map m \<Longrightarrow> wf_map (merge_slash m k)"
proof -
  assume wf: "wf_map m"
  show ?thesis
  proof (cases "map_of m (k @ ''/'')")
    case None
    then show ?thesis using wf by (simp add: merge_slash_def)
  next
    case (Some a)
    show ?thesis
    proof (cases "map_of m k")
      case None
      then show ?thesis using wf Some by (simp add: merge_slash_def)
    next
      case b: (Some b)
      have ea: "entry_ok (k @ ''/'', a)" and eb: "entry_ok (k, b)"
        using wf map_of_SomeD [OF Some] map_of_SomeD [OF b] by (auto simp: wf_map_def)
      have new: "entry_ok (k @ ''/'', sort (uniq (a @ b)))"
        using ea eb by (auto simp: entry_ok_def uniq_set sort_key_nonempty uniq_nonempty)
      have "wf_map (put (k @ ''/'') (sort (uniq (a @ b))) m)"
        using wf new unfolding wf_map_def by (auto simp: put_distinct dest: put_entries)
      then have "wf_map (delete_prop k (put (k @ ''/'') (sort (uniq (a @ b))) m))"
        unfolding wf_map_def by (auto simp: delete_prop_distinct) (auto simp: delete_prop_def)
      then show ?thesis using Some b by (simp add: merge_slash_def)
    qed
  qed
qed

lemma merge_all_wf: "wf_map m \<Longrightarrow> wf_map (foldl merge_slash m ks)"
  by (induction ks arbitrary: m) (auto simp: merge_slash_wf)

lemma merge_slash_keys: "fst ` set (merge_slash m k) \<subseteq> fst ` set m"
  by (auto simp: merge_slash_def delete_prop_keys put_keys map_of_None_keys [symmetric]
      split: option.splits)

lemma merge_all_keys: "fst ` set (foldl merge_slash m ks) \<subseteq> fst ` set m"
proof (induction ks arbitrary: m)
  case Nil
  show ?case by simp
next
  case (Cons k ks)
  from Cons.IH [of "merge_slash m k"] merge_slash_keys [of m k] show ?case by auto
qed

lemma merge_slash_visited:
  assumes "k \<in> fst ` set (merge_slash m k)"
  shows "k @ ''/'' \<notin> fst ` set m \<and> merge_slash m k = m"
proof (cases "map_of m (k @ ''/'')")
  case None
  then have "merge_slash m k = m" by (simp add: merge_slash_def)
  moreover from None have "k @ ''/'' \<notin> fst ` set m"
    using map_of_None_keys [of m "k @ ''/''"] by blast
  ultimately show ?thesis by simp
next
  case (Some a)
  show ?thesis
  proof (cases "map_of m k")
    case None
    with Some have "merge_slash m k = m" by (simp add: merge_slash_def)
    moreover from None have "k \<notin> fst ` set m"
      using map_of_None_keys [of m k] by blast
    ultimately show ?thesis using assms by simp
  next
    case b: (Some b)
    with Some have "k \<notin> fst ` set (merge_slash m k)"
      by (simp add: merge_slash_def delete_prop_keys)
    with assms show ?thesis by simp
  qed
qed

text \<open>A name that was visited and is still there has no companion with a slash.\<close>

lemma merge_all_no_pair:
  "k \<in> set ks \<Longrightarrow> k \<in> fst ` set (foldl merge_slash m ks) \<Longrightarrow>
     k @ ''/'' \<notin> fst ` set (foldl merge_slash m ks)"
proof (induction ks arbitrary: m)
  case Nil
  then show ?case by simp
next
  case (Cons x ks)
  show ?case
  proof (cases "k \<in> set ks")
    case True
    from Cons.IH [OF True, of "merge_slash m x"] Cons.prems(2) show ?thesis by simp
  next
    case False
    with Cons.prems(1) have kx: "k = x" by simp
    from Cons.prems(2) merge_all_keys [of "merge_slash m x" ks]
    have "k \<in> fst ` set (merge_slash m k)" unfolding kx by auto
    from merge_slash_visited [OF this] have "k @ ''/'' \<notin> fst ` set m" and "merge_slash m k = m"
      by simp_all
    with merge_all_keys [of m ks] show ?thesis unfolding kx by auto
  qed
qed

lemma merge_slash_idle: "k @ ''/'' \<notin> fst ` set m \<Longrightarrow> merge_slash m k = m"
  using map_of_None_keys [of m "k @ ''/''"] by (simp add: merge_slash_def)

lemma merge_all_idle: "\<forall>k \<in> set ks. k @ ''/'' \<notin> fst ` set m \<Longrightarrow> foldl merge_slash m ks = m"
  by (induction ks) (auto simp: merge_slash_idle)


subsection \<open>The order of the own properties\<close>

lemma own_properties_set: "set (own_properties m) = set m"
  by (auto simp: own_properties_def)

lemma own_properties_distinct: "distinct m \<Longrightarrow> distinct (own_properties m)"
  by (auto simp: own_properties_def)

lemma own_properties_wf: "wf_map m \<Longrightarrow> wf_map (own_properties m)"
  unfolding wf_map_def distinct_map
  by (simp add: own_properties_set own_properties_distinct)

lemma own_properties_twice: "own_properties (own_properties m) = own_properties m"
proof -
  let ?P = "\<lambda>p. is_array_index (fst p)"
  let ?f = "\<lambda>p. index_value (fst p)"
  let ?A = "sort_key ?f (filter ?P m)"
  let ?B = "filter (\<lambda>p. \<not> ?P p) m"
  have 1: "filter ?P ?A = ?A" by (simp add: filter_sort)
  have 2: "filter ?P ?B = []" by simp
  have 3: "filter (\<lambda>p. \<not> ?P p) ?A = []" by (simp add: filter_sort)
  have 4: "filter (\<lambda>p. \<not> ?P p) ?B = ?B" by simp
  have 5: "sort_key ?f ?A = ?A" by (rule sort_key_id_if_sorted) (rule sorted_sort_key)
  show ?thesis
    unfolding own_properties_def filter_append 1 2 3 4 append_Nil2 5 append_Nil ..
qed

lemma insort_key_map:
  "insort_key f (g x) (map g xs) = map g (insort_key (\<lambda>y. f (g y)) x xs)"
  by (induction xs) auto

lemma sort_key_map: "sort_key f (map g xs) = map g (sort_key (\<lambda>y. f (g y)) xs)"
  by (induction xs) (auto simp: insort_key_map)

lemma own_properties_map:
  assumes "\<And>p. fst (g p) = fst p"
  shows "own_properties (map g m) = map g (own_properties m)"
  by (simp add: own_properties_def filter_map o_def assms sort_key_map)

subsection \<open>Canonicalising the output again\<close>

lemma pop_scheme_ok: "entry_ok p \<Longrightarrow> scheme_ok (pop_scheme (snd p))"
  by (auto simp: entry_ok_def pop_scheme_def)

lemma match_emitted:
  "entry_ok p \<Longrightarrow> match_url (emit_url p) = Some (pop_scheme (snd p), fst p)"
  unfolding emit_url_def
  by (rule match_url_build) (auto simp: pop_scheme_ok entry_ok_def key_ok_def)

lemma emit_emitted: "emit_url (emitted p) = emit_url p"
  by (simp add: emit_url_def emitted_def pop_scheme_def)

lemma fst_emitted: "fst (emitted p) = fst p"
  by (simp add: emitted_def)

lemma note_scheme_emitted:
  assumes "entry_ok p" and "fst p \<notin> fst ` set acc"
  shows "note_scheme acc (emit_url p) = Inr (acc @ [emitted p])"
proof -
  have none: "map_of acc (fst p) = None"
    using assms(2) map_of_None_keys [of acc "fst p"] by blast
  have "fst p \<notin> set object_prototype_names"
    using assms(1) by (simp add: entry_ok_def key_ok_def)
  then show ?thesis
    by (simp add: note_scheme_def match_emitted [OF assms(1)] none put_absent [OF assms(2)]
        emitted_def)
qed

lemma note_schemes_emitted:
  "distinct (map fst (acc @ ps)) \<Longrightarrow> \<forall>p \<in> set ps. entry_ok p \<Longrightarrow>
     note_schemes acc (map emit_url ps) = Inr (acc @ map emitted ps)"
proof (induction ps arbitrary: acc)
  case Nil
  show ?case by simp
next
  case (Cons p ps)
  have fresh: "fst p \<notin> fst ` set acc" using Cons.prems(1) by auto
  have ok: "entry_ok p" using Cons.prems(2) by simp
  have "distinct (map fst ((acc @ [emitted p]) @ ps))"
    using Cons.prems(1) by (simp add: fst_emitted)
  from Cons.IH [OF this] Cons.prems(2)
  have "note_schemes (acc @ [emitted p]) (map emit_url ps) = Inr ((acc @ [emitted p]) @ map emitted ps)"
    by simp
  then show ?case
    by (simp add: note_scheme_emitted [OF ok fresh])
qed

lemma emit_url_inj:
  assumes "wf_map m"
  shows "inj_on emit_url (set m)"
proof (rule inj_onI)
  fix p q assume p: "p \<in> set m" and q: "q \<in> set m" and eq: "emit_url p = emit_url q"
  from assms p q have "entry_ok p" "entry_ok q" by (auto simp: wf_map_def)
  from match_emitted [OF this(1)] match_emitted [OF this(2)] eq have "fst p = fst q" by simp
  moreover from assms have "inj_on fst (set m)" by (simp add: wf_map_def distinct_map)
  ultimately show "p = q" using p q by (auto dest: inj_onD)
qed

lemma wf_map_Nil: "wf_map []"
  by (simp add: wf_map_def)

lemma getUniqueURLs_fixpoint:
  assumes "getUniqueURLs urls = Inr out"
  shows "getUniqueURLs out = Inr out"
proof -
  from assms obtain m where m: "note_schemes [] urls = Inr m"
    and out: "out = map emit_url (own_properties (foldl merge_slash m (getOwnPropertyNames m)))"
    by (auto simp: getUniqueURLs_def split: sum.splits)
  let ?F = "foldl merge_slash m (getOwnPropertyNames m)"
  let ?G = "own_properties ?F"
  let ?M = "map emitted ?G"
  have wfm: "wf_map m" using note_schemes_wf [OF wf_map_Nil m] .
  have wfF: "wf_map ?F" using wfm by (rule merge_all_wf)
  have wfG: "wf_map ?G" using wfF by (rule own_properties_wf)
  have names: "set (getOwnPropertyNames m) = fst ` set m"
    by (simp add: getOwnPropertyNames_def own_properties_set)
  have nopair: "k @ ''/'' \<notin> fst ` set ?F" if "k \<in> fst ` set ?F" for k
  proof -
    from that merge_all_keys [of m "getOwnPropertyNames m"] names
    have "k \<in> set (getOwnPropertyNames m)" by auto
    from merge_all_no_pair [OF this that] show ?thesis .
  qed
  have keysG: "fst ` set ?G = fst ` set ?F" by (simp add: own_properties_set)
  have again: "note_schemes [] (map emit_url ?G) = Inr ?M"
    using note_schemes_emitted [of "[]" ?G] wfG by (simp add: wf_map_def)
  have ownM: "own_properties ?M = ?M"
    by (simp add: own_properties_map fst_emitted own_properties_twice)
  have "getOwnPropertyNames ?M = map fst (own_properties ?M)"
    by (rule getOwnPropertyNames_def)
  then have namesM: "getOwnPropertyNames ?M = map fst ?G"
    unfolding ownM by (simp add: fst_emitted)
  have keysM: "fst ` set ?M = fst ` set ?F"
    using keysG by (simp add: image_image fst_emitted)
  have idle: "foldl merge_slash ?M (getOwnPropertyNames ?M) = ?M"
  proof (rule merge_all_idle, rule ballI)
    fix k assume "k \<in> set (getOwnPropertyNames ?M)"
    then have "k \<in> fst ` set ?F" unfolding namesM using keysG by simp
    from nopair [OF this] show "k @ ''/'' \<notin> fst ` set ?M" unfolding keysM .
  qed
  have "getUniqueURLs out = Inr (map emit_url ?M)"
    unfolding out getUniqueURLs_def again sum.case idle ownM ..
  also have "map emit_url ?M = out"
    unfolding out by (simp add: emit_emitted)
  finally show ?thesis .
qed

lemma getUniqueURLs_distinct:
  assumes "getUniqueURLs urls = Inr out"
  shows "distinct out"
proof -
  from assms obtain m where m: "note_schemes [] urls = Inr m"
    and out: "out = map emit_url (own_properties (foldl merge_slash m (getOwnPropertyNames m)))"
    by (auto simp: getUniqueURLs_def split: sum.splits)
  let ?G = "own_properties (foldl merge_slash m (getOwnPropertyNames m))"
  have wfG: "wf_map ?G"
    using note_schemes_wf [OF wf_map_Nil m] by (intro own_properties_wf merge_all_wf)
  then have "distinct ?G" by (simp add: wf_map_def distinct_map)
  with emit_url_inj [OF wfG] show ?thesis
    unfolding out by (simp add: distinct_map)
qed

text \<open>
  The first traversal throws on a URL that does not match the pattern and on a rest that
  is a name inherited from \<^verbatim>\<open>Object.prototype\<close>, and on nothing else.
\<close>

lemma note_scheme_returns:
  "match_url u = Some (s, k) \<Longrightarrow> k \<notin> set object_prototype_names \<Longrightarrow> \<exists>m'. note_scheme m u = Inr m'"
  by (simp add: note_scheme_def split: option.splits)

lemma note_schemes_returns:
  "\<forall>u \<in> set us. \<exists>s k. match_url u = Some (s, k) \<and> k \<notin> set object_prototype_names \<Longrightarrow>
     \<exists>m'. note_schemes m us = Inr m'"
proof (induction us arbitrary: m)
  case Nil
  show ?case by simp
next
  case (Cons u us)
  from Cons.prems obtain s k where "match_url u = Some (s, k)" "k \<notin> set object_prototype_names"
    by auto
  from note_scheme_returns [OF this] obtain m1 where "note_scheme m u = Inr m1" ..
  moreover from Cons.IH [of m1] Cons.prems obtain m2 where "note_schemes m1 us = Inr m2"
    by auto
  ultimately show ?case by simp
qed

text \<open>
  Away from those names the canonicaliser is idempotent: on a list of URLs that match the
  pattern and whose rests are not inherited names, \<^verbatim>\<open>getUniqueURLs\<close> returns a list
  without duplicates that it maps to itself, the same URLs in the same order.
\<close>

lemma getUniqueURLs_idempotent:
  assumes "\<forall>u \<in> set urls. \<exists>s k. match_url u = Some (s, k) \<and> k \<notin> set object_prototype_names"
  shows "\<exists>out. getUniqueURLs urls = Inr out \<and> getUniqueURLs out = Inr out \<and> distinct out"
proof -
  from note_schemes_returns [OF assms, of "[]"] obtain out where out: "getUniqueURLs urls = Inr out"
    by (auto simp: getUniqueURLs_def)
  from out getUniqueURLs_fixpoint [OF out] getUniqueURLs_distinct [OF out] show ?thesis by blast
qed

lemma getUniqueURLs_idempotent_example:
  "getUniqueURLs [''http://a/'', ''http://a'', ''https://a//'', ''http://a'', ''https://80'', ''http://9/''] =
     Inr [''https://80'', ''http://a'', ''https://a//'', ''http://9/''] \<and>
   getUniqueURLs [''https://80'', ''http://a'', ''https://a//'', ''http://9/''] =
     Inr [''https://80'', ''http://a'', ''https://a//'', ''http://9/'']"
  by code_simp

text \<open>
  C7 fails on the code, by the defect of C6: a list of one URL that matches the pattern,
  whose rest is a name every object inherits. \<^verbatim>\<open>getUniqueURLs\<close> throws on it, so there
  is no output that a second application could return.
\<close>

theorem getUniqueURLs_no_output:
  "match_url ''http://constructor'' = Some (''http'', ''constructor'') \<and>
   getUniqueURLs [''http://constructor''] = Inl TypeError"
  by code_simp

subsection \<open>Two variants of one URL\<close>

lemma prototype_name_end: "k \<in> set object_prototype_names \<Longrightarrow> last k \<noteq> CHR ''/''"
  by (auto simp: object_prototype_names_def)

lemma slash_not_prototype: "r @ ''/'' \<notin> set object_prototype_names"
  using prototype_name_end [of "r @ ''/''"] by auto

lemma slash_not_index: "\<not> is_array_index (r @ ''/'')"
  by (simp add: is_array_index_def digit_def)

lemma key_ok_slash: "key_ok r \<Longrightarrow> key_ok (r @ ''/'')"
  by (simp add: key_ok_def slash_not_prototype line_terminator_def)

lemma scheme_max: "scheme_ok a \<Longrightarrow> scheme_ok b \<Longrightarrow> last (sort (uniq [a, b])) = max a b"
  by (auto simp: scheme_ok_def)

lemma scheme_max2: "scheme_ok a \<Longrightarrow> scheme_ok b \<Longrightarrow> a \<noteq> b \<Longrightarrow> last (sort [a, b]) = max a b"
  by (auto simp: scheme_ok_def)

lemma match_url_key:
  "scheme_ok s \<Longrightarrow> key_ok k \<Longrightarrow> match_url (s @ ''://'' @ k) = Some (s, k)"
  by (rule match_url_build) (simp_all add: key_ok_def)

lemma note_scheme_fresh:
  "match_url u = Some (s, k) \<Longrightarrow> k \<notin> fst ` set m \<Longrightarrow> k \<notin> set object_prototype_names \<Longrightarrow>
     note_scheme m u = Inr (m @ [(k, [s])])"
  using map_of_None_keys [of m k] by (simp add: note_scheme_def put_absent)

lemma note_scheme_known:
  "match_url u = Some (s, k) \<Longrightarrow> map_of m k = Some ss \<Longrightarrow>
     note_scheme m u = Inr (if s \<in> set ss then m else put k (sort (ss @ [s])) m)"
  by (auto simp: note_scheme_def filter_empty_conv)

lemma getUniqueURLs_from:
  "note_schemes [] urls = Inr m \<Longrightarrow>
     getUniqueURLs urls = Inr (map emit_url (own_properties (foldl merge_slash m (getOwnPropertyNames m))))"
  by (simp add: getUniqueURLs_def)

text \<open>
  Two URLs with the same rest yield one URL, with the later scheme in sorted order
  (\<^verbatim>\<open>https\<close> when both were seen); two URLs whose rests are \<open>r\<close> and \<open>r/\<close> yield one URL,
  with the slash and again the later scheme. Both need the rest to be a key that is not
  inherited from \<^verbatim>\<open>Object.prototype\<close>.
\<close>

lemma same_rest:
  assumes t: "key_ok t" and s: "scheme_ok s1" "scheme_ok s2"
    and u: "u1 = s1 @ ''://'' @ t" "u2 = s2 @ ''://'' @ t"
  shows "getUniqueURLs [u1, u2] = Inr [max s1 s2 @ ''://'' @ t]"
proof -
  have m1: "match_url u1 = Some (s1, t)"
    unfolding u by (rule match_url_key [OF s(1) t])
  have m2: "match_url u2 = Some (s2, t)"
    unfolding u by (rule match_url_key [OF s(2) t])
  have p: "t \<notin> set object_prototype_names" using t by (simp add: key_ok_def)
  have n1: "note_scheme [] u1 = Inr [(t, [s1])]"
    using note_scheme_fresh [OF m1, of "[]"] p by simp
  have n2: "note_scheme [(t, [s1])] u2 = Inr [(t, if s1 = s2 then [s1] else sort [s1, s2])]"
    using note_scheme_known [OF m2, of "[(t, [s1])]" "[s1]"] by auto
  have n: "note_schemes [] [u1, u2] = Inr [(t, if s1 = s2 then [s1] else sort [s1, s2])]"
    by (simp add: n1 n2)
  have own: "own_properties [(t, ss)] = [(t, ss)]" for ss
    by (simp add: own_properties_def)
  have idle: "merge_slash [(t, ss)] t = [(t, ss)]" for ss
    by (simp add: merge_slash_def)
  show ?thesis
    unfolding getUniqueURLs_from [OF n] getOwnPropertyNames_def own
    using s by (auto simp: idle own emit_url_def pop_scheme_def scheme_ok_def)
qed

lemma slash_variants:
  assumes r: "key_ok r" and s: "scheme_ok s1" "scheme_ok s2"
    and u: "{t1, t2} = {r, r @ ''/''}" "u1 = s1 @ ''://'' @ t1" "u2 = s2 @ ''://'' @ t2"
  shows "getUniqueURLs [u1, u2] = Inr [max s1 s2 @ ''://'' @ r @ ''/'']"
proof -
  have k: "key_ok t1" "key_ok t2" "t1 \<noteq> t2"
    using r u(1) key_ok_slash [OF r] by (auto simp: doubleton_eq_iff)
  have m1: "match_url u1 = Some (s1, t1)"
    unfolding u by (rule match_url_key [OF s(1) k(1)])
  have m2: "match_url u2 = Some (s2, t2)"
    unfolding u by (rule match_url_key [OF s(2) k(2)])
  have n1: "note_scheme [] u1 = Inr [(t1, [s1])]"
    using note_scheme_fresh [OF m1, of "[]"] k by (simp add: key_ok_def)
  have n2: "note_scheme [(t1, [s1])] u2 = Inr [(t1, [s1]), (t2, [s2])]"
    using note_scheme_fresh [OF m2, of "[(t1, [s1])]"] k by (simp add: key_ok_def)
  have n: "note_schemes [] [u1, u2] = Inr [(t1, [s1]), (t2, [s2])]"
    by (simp add: n1 n2)
  let ?m = "[(t1, [s1]), (t2, [s2])]"
  have names: "getOwnPropertyNames ?m = [r, r @ ''/''] \<or> getOwnPropertyNames ?m = [r @ ''/'', r]"
    using u(1) by (auto simp: getOwnPropertyNames_def own_properties_def doubleton_eq_iff)
  have merged: "foldl merge_slash ?m (getOwnPropertyNames ?m) = [(r @ ''/'', sort (uniq [a, b]))] \<and> {a, b} = {s1, s2}"
    if "a = (if t1 = r then s2 else s1)" "b = (if t1 = r then s1 else s2)" for a b
    using names u(1) that
    by (auto simp: merge_slash_def delete_prop_def doubleton_eq_iff)
  have last: "last (sort (uniq [a, b])) = max s1 s2" if "{a, b} = {s1, s2}" for a b
    using that s scheme_max [of a b] by (auto simp: doubleton_eq_iff max.commute)
  have own: "own_properties [(r @ ''/'', ss)] = [(r @ ''/'', ss)]" for ss
    by (simp add: own_properties_def)
  from merged [OF refl refl] last show ?thesis
    unfolding getUniqueURLs_from [OF n]
    by (auto simp: own emit_url_def pop_scheme_def sort_key_nonempty uniq_nonempty simp del: uniq.simps sort_key_simps)
qed

lemma getUniqueURLs_example:
  "getUniqueURLs [''http://a.com'', ''https://a.com/''] = Inr [''https://a.com/''] \<and>
   getUniqueURLs [''http://a.com/x'', ''http://a.com/x''] = Inr [''http://a.com/x'']"
  by code_simp

text \<open>
  C6 fails on the code where the rest of the URL is the name of a property that every
  object inherits: \<^verbatim>\<open>urlMap[key]\<close> is then the inherited function, \<^verbatim>\<open>urlMap[key] || []\<close>
  keeps it, and calling its \<^verbatim>\<open>filter\<close> throws, so no URL is returned for the two variants
  of \<^verbatim>\<open>constructor\<close>.
\<close>

theorem getUniqueURLs_prototype_name:
  "getUniqueURLs [''http://constructor'', ''https://constructor/''] = Inl TypeError"
  by code_simp

section \<open>The runner\<close>

lemma record_urls_running: "running (snd (record_urls src ups r)) = running r"
  by (induction src ups r rule: record_urls.induct)
     (auto simp: Let_def split: option.splits)

lemma gather_running: "running (snd (gather src out r)) = running r"
  by (auto simp: gather_def record_urls_running split: memo_output.splits sum.splits)

lemma fire_running:
  "running r \<Longrightarrow> ev \<noteq> Glob_error \<Longrightarrow> running (fire r ev)"
  by (cases ev) (auto simp: run_def gather_running split: option.splits)

lemma fires_running:
  "running r \<Longrightarrow> Glob_error \<notin> set evs \<Longrightarrow> running (foldl fire r evs)"
  by (induction evs arbitrary: r) (auto simp: fire_running)

text \<open>
  C10. Once a run has started (\<open>running\<close> is set), and as long as the glob stream has not
  failed, whatever else happened in between, a call of \<^verbatim>\<open>run()\<close> throws
  \<open>AlreadyRunning\<close> and leaves every field of the runner as it was. Only \<^verbatim>\<open>finish\<close>
  resets \<open>running\<close>, and only the failure of the stream calls it.
\<close>

theorem run_rejected_while_running:
  assumes "running r" and "Glob_error \<notin> set evs"
  shows "run fresh (foldl fire r evs) = (Inl AlreadyRunning, foldl fire r evs)"
  using fires_running [OF assms] by (simp add: run_def)

theorem run_rejected_while_running_witness:
  "running (snd (run 1 idle_runner)) \<and> Glob_error \<notin> set some_events \<and>
   run 2 (foldl fire (snd (run 1 idle_runner)) some_events) =
     (Inl AlreadyRunning, foldl fire (snd (run 1 idle_runner)) some_events)"
proof -
  have a: "running (snd (run 1 idle_runner))"
    by (simp add: run_def idle_runner_def)
  have b: "Glob_error \<notin> set some_events"
    by (simp add: some_events_def)
  show ?thesis using a b run_rejected_while_running [OF a b, of 2] by blast
qed

text \<open>
  The loop of the gather stage throws exactly when no unwrapping of the delegates is an
  array with one element per URL; otherwise it ends with the first such unwrapping.
\<close>

lemma align_malformed_iff:
  "align n v = Inl MalformedMemoOutput \<longleftrightarrow> (\<forall>v' \<in> set (unwrappings v). \<not> has_length n v')"
  by (induction n v rule: align.induct) auto

lemma align_throws_malformed_only: "align n v = Inl e \<Longrightarrow> e = MalformedMemoOutput"
  by (induction n v rule: align.induct) (auto split: if_splits)

text \<open>
  C9. Whatever the delegates are, when none of their unwrappings is an array whose
  length is the number of URLs (the loop then reaches an array whose length is neither
  that number nor 1, or a parse object, which has no length), the gather stage throws
  \<open>MalformedMemoOutput\<close>; the accumulators are as before.
\<close>

theorem gather_unalignable:
  assumes "\<forall>v \<in> set (unwrappings delegates). \<not> has_length (length urls) v"
  shows "gather src (Output urls delegates) r = (Inl MalformedMemoOutput, r)"
  using assms align_malformed_iff [of "length urls" delegates] by (simp add: gather_def)

theorem gather_unalignable_witness:
  "gather ''a.idl''
     (Output [''http://x/'', ''http://y/''] (Arr [Arr [Arr [Arr [Parse 1], Arr [], Arr []]]]))
     idle_runner = (Inl MalformedMemoOutput, idle_runner) \<and>
   gather ''a.idl'' (Output [''http://x/'', ''http://y/''] (Arr [Arr [Parse 1]]))
     (snd (run 1 idle_runner)) = (Inl MalformedMemoOutput, snd (run 1 idle_runner)) \<and>
   gather ''a.idl'' (Output [] (Arr [Arr [Parse 1]]))
     (snd (run 1 idle_runner)) = (Inl MalformedMemoOutput, snd (run 1 idle_runner))"
proof -
  have a: "\<forall>v \<in> set (unwrappings (Arr [Arr [Arr [Arr [Parse (1::nat)], Arr [], Arr []]]])).
             \<not> has_length (length [''http://x/'', ''http://y/'']) v"
    by simp
  have b: "\<forall>v \<in> set (unwrappings (Arr [Arr [Parse (1::nat)]])).
             \<not> has_length (length [''http://x/'', ''http://y/'']) v"
    by simp
  have c: "\<forall>v \<in> set (unwrappings (Arr [Arr [Parse (1::nat)]])).
             \<not> has_length (length ([] :: string list)) v"
    by simp
  from gather_unalignable [OF a] gather_unalignable [OF b] gather_unalignable [OF c]
  show ?thesis by blast
qed

text \<open>
  Conversely, when some unwrapping is an array with one element per URL, the gather stage
  does not throw \<open>MalformedMemoOutput\<close>.
\<close>

lemma gather_alignable:
  assumes "\<exists>v \<in> set (unwrappings delegates). has_length (length urls) v"
  shows "fst (gather src (Output urls delegates) r) \<noteq> Inl MalformedMemoOutput"
proof -
  from assms align_malformed_iff [of "length urls" delegates]
  have "align (length urls) delegates \<noteq> Inl MalformedMemoOutput" by blast
  moreover have "align (length urls) delegates \<noteq> Inl e" if "e \<noteq> MalformedMemoOutput" for e
    using align_throws_malformed_only [of "length urls" delegates e] that by blast
  ultimately obtain aligned where al: "align (length urls) delegates = Inr aligned"
    by (cases "align (length urls) delegates") auto
  have ct: "concat_tags t \<noteq> Inl MalformedMemoOutput" for t :: "'a nest"
    by (cases t) auto
  have mt: "map_throwing concat_tags ts \<noteq> Inl MalformedMemoOutput" for ts :: "'a nest list"
    by (induction ts) (auto simp: ct split: sum.splits)
  have ru: "fst (record_urls src ups r') \<noteq> Inl MalformedMemoOutput"
    for ups and r' :: "('a, 'b) runner"
    by (induction src ups r' rule: record_urls.induct) (auto simp: Let_def split: option.splits)
  show ?thesis
    using mt [of aligned] ru by (auto simp: gather_def al split: sum.splits)
qed

end
